theory Spec2Isabelle
  imports Main
begin

section \<open>The completion engine of the query editor panel\<close>

text \<open>
  A shallow embedding of \<^verbatim>\<open>src/modules/cmp/queryEditorPanel/queryEditorPanel.js\<close>.
  A JavaScript string is a \<open>string\<close>, one \<open>char\<close> per code unit, so the model
  covers the code units below 256, the Latin-1 text; offsets are natural numbers. Methods whose JavaScript name
  starts with an underscore carry the prefix \<open>priv_\<close>, fields the prefix \<open>p_\<close>.
  The handlers that only talk to the store (\<^verbatim>\<open>runQuery\<close>, \<^verbatim>\<open>runQueryAll\<close>,
  \<^verbatim>\<open>formatQuery\<close>) touch no field of the completion and are left out. The store
  is outside the panel: what the panel dispatches is recorded, and what the store
  sends back arrives as an event of its own.
\<close>

subsection \<open>String primitives of the language\<close>

text \<open>
  \<^verbatim>\<open>s.substring(start, end)\<close>: both arguments are clamped to the length of the
  string and swapped when the first exceeds the second. \<^verbatim>\<open>s.substring(start)\<close>
  runs to the end of the string.
\<close>

definition substring :: "string \<Rightarrow> nat \<Rightarrow> nat \<Rightarrow> string" where
  "substring s start end' =
     (let a = min start (length s);
          b = min end' (length s);
          lo = min a b;
          hi = max a b
      in take (hi - lo) (drop lo s))"

definition substring_from :: "string \<Rightarrow> nat \<Rightarrow> string" where
  "substring_from s start = drop (min start (length s)) s"

subsection \<open>\<^verbatim>\<open>_findSeparator\<close>\<close>

text \<open>
  \<^verbatim>\<open>/[,. ][^,. ]*$/g.exec(value)\<close> on a fresh expression object: the search tries
  the start offsets \<open>0, 1, \<dots>\<close> in turn and reports the first one at which the pattern
  matches. At one offset the pattern asks for a character of the class \<^verbatim>\<open>[,. ]\<close>,
  then characters outside the class, then the end of the input.
\<close>

definition isSeparatorChar :: "char \<Rightarrow> bool" where
  "isSeparatorChar c = (c = CHR '','' \<or> c = CHR ''.'' \<or> c = CHR '' '')"

fun separatorMatchesAt :: "string \<Rightarrow> bool" where
  "separatorMatchesAt [] = False"
| "separatorMatchesAt (c # cs) = (isSeparatorChar c \<and> list_all (\<lambda>d. \<not> isSeparatorChar d) cs)"

fun separatorExec :: "nat \<Rightarrow> string \<Rightarrow> nat option" where
  "separatorExec index [] = None"
| "separatorExec index (c # cs) =
     (if separatorMatchesAt (c # cs) then Some index else separatorExec (Suc index) cs)"

definition priv_findSeparator :: "string \<Rightarrow> nat option" where
  "priv_findSeparator v =
     (case separatorExec 0 v of None \<Rightarrow> None | Some index \<Rightarrow> Some (index + 1))"

subsection \<open>Data model\<close>

text \<open>
  A field descriptor of the catalog has a \<^verbatim>\<open>name\<close> and a \<^verbatim>\<open>label\<close>; \<open>extra\<close> stands
  for every other property it carries. A completion field is the descriptor spread
  into a new object with \<^verbatim>\<open>itemLabel\<close> and \<^verbatim>\<open>isActive\<close> added.
\<close>

record 'm field =
  name :: string
  label :: string
  extra :: 'm

record 'm candidate = "'m field" +
  itemLabel :: string
  isActive :: bool

text \<open>The \<^verbatim>\<open>.soql-input\<close> element: its text and its selection offsets.\<close>

record textarea =
  ta_value :: string
  selectionStart :: nat
  selectionEnd :: nat

text \<open>A keyboard event, with the state of its target element when it is delivered.\<close>

record event =
  key :: string
  altKey :: bool
  ctrlKey :: bool
  metaKey :: bool
  isComposing :: bool
  target :: textarea

datatype action = UpdateSoql string

datatype error = TypeError

text \<open>
  The component instance. \<open>None\<close> is \<^verbatim>\<open>undefined\<close>, the value of a class field
  before its first assignment; \<^verbatim>\<open>isCompletionVisible\<close> is only ever tested for
  truth, so its \<^verbatim>\<open>undefined\<close> is \<open>False\<close>. Of \<^verbatim>\<open>_sobjectMeta\<close> only \<^verbatim>\<open>fields\<close> is
  read. The last three fields are the part of the environment the component writes
  to: the timeouts it has scheduled and the actions it has dispatched to the store.
  Presentation effects (\<^verbatim>\<open>completionStyle\<close>, \<^verbatim>\<open>preventDefault\<close>, \<^verbatim>\<open>focus\<close>) are
  left out.
\<close>

record 'm cmp =
  isCompletionVisible :: bool
  completionFields :: "'m candidate list option"
  p_sobjectMeta :: "'m field list option"
  p_selectionStart :: "nat option"
  p_soql :: "string option"
  p_closeCompletionTimer :: "nat option"
  pendingTimeouts :: "nat list"
  nextTimeoutId :: nat
  dispatched :: "action list"

definition initial :: "'m cmp" where
  "initial = \<lparr>isCompletionVisible = False, completionFields = None, p_sobjectMeta = None,
     p_selectionStart = None, p_soql = None, p_closeCompletionTimer = None,
     pendingTimeouts = [], nextTimeoutId = 1, dispatched = []\<rparr>"

text \<open>
  A handler either returns or throws; what it has assigned before a throw stays
  assigned, so both outcomes carry a state. Handlers that write to the input element
  carry the element too.
\<close>

type_synonym 'm outcome = "(error \<times> 'm cmp) + 'm cmp"

type_synonym 'm dom_outcome =
  "(error \<times> 'm cmp \<times> textarea option) + ('m cmp \<times> textarea option)"

definition state_of :: "'m outcome \<Rightarrow> 'm cmp" where
  "state_of r = (case r of Inl (e, c) \<Rightarrow> c | Inr c \<Rightarrow> c)"

definition dom_state_of :: "'m dom_outcome \<Rightarrow> 'm cmp" where
  "dom_state_of r = (case r of Inl (e, c, el) \<Rightarrow> c | Inr (c, el) \<Rightarrow> c)"

definition element_of :: "'m dom_outcome \<Rightarrow> textarea option" where
  "element_of r = (case r of Inl (e, c, el) \<Rightarrow> el | Inr (c, el) \<Rightarrow> el)"

definition with_element :: "textarea option \<Rightarrow> 'm outcome \<Rightarrow> 'm dom_outcome" where
  "with_element el r = (case r of Inl (e, c) \<Rightarrow> Inl (e, c, el) | Inr c \<Rightarrow> Inr (c, el))"

subsection \<open>The input element\<close>

text \<open>
  Assigning \<^verbatim>\<open>value\<close> moves the selection to the end of the text when the text
  changes; \<^verbatim>\<open>setSelectionRange\<close> clamps both offsets to the length of the text.
\<close>

definition set_value :: "textarea \<Rightarrow> string \<Rightarrow> textarea" where
  "set_value t v =
     (if ta_value t = v then t
      else t\<lparr>ta_value := v, selectionStart := length v, selectionEnd := length v\<rparr>)"

definition setSelectionRange :: "textarea \<Rightarrow> nat \<Rightarrow> nat \<Rightarrow> textarea" where
  "setSelectionRange t start end' =
     (let e = min end' (length (ta_value t));
          s = min (min start (length (ta_value t))) e
      in t\<lparr>selectionStart := s, selectionEnd := e\<rparr>)"

text \<open>The setter of \<^verbatim>\<open>soql\<close>: the element is written only when the template has one.\<close>

definition set_soql :: "'m cmp \<Rightarrow> textarea option \<Rightarrow> string \<Rightarrow> 'm cmp \<times> textarea option" where
  "set_soql c inputEl v = (c\<lparr>p_soql := Some v\<rparr>, map_option (\<lambda>t. set_value t v) inputEl)"

subsection \<open>The keyword pattern\<close>

text \<open>
  With the flag \<^verbatim>\<open>i\<close> two characters match when their canonical forms agree. The
  canonical form of a code unit is the code unit of its upper-case form, when
  \<^verbatim>\<open>toUpperCase\<close> gives a single code unit. Below 256 the upper-case form lies 32
  below for \<^verbatim>\<open>a\<close>..\<^verbatim>\<open>z\<close> and for the letters from 224 to 254 other than the division
  sign 247; it is 376 for 255 and 924 for the micro sign 181; the sharp s 223 has an
  upper-case form of two code units and keeps itself, as every other code unit does.
  A canonical form is a code unit of the language and so a number, not a \<open>char\<close>.
\<close>

definition hasUpperCase :: "nat \<Rightarrow> bool" where
  "hasUpperCase cu =
     ((97 \<le> cu \<and> cu \<le> 122) \<or> (224 \<le> cu \<and> cu \<le> 254 \<and> cu \<noteq> 247))"

definition toUpperCase :: "nat \<Rightarrow> nat" where
  "toUpperCase cu =
     (if hasUpperCase cu then cu - 32
      else if cu = 255 then 376
      else if cu = 181 then 924
      else cu)"

definition canonicalize :: "char \<Rightarrow> nat" where
  "canonicalize ch = toUpperCase (of_char ch)"

datatype pattern_atom = PatternCharacter char

type_synonym pattern = "pattern_atom list"

text \<open>
  Modelled from the spec: \<^verbatim>\<open>escapeRegExp\<close> of \<^verbatim>\<open>base/utils/regexp-utils\<close> is imported
  by the panel and is not part of the sources at hand. The spec says that the
  keyword is escaped to be treated as literal text, not as a pattern: the expression
  compiled from the escaped keyword is the sequence of the keyword's characters, each
  one a pattern character that matches itself.
\<close>

definition escapeRegExp :: "string \<Rightarrow> pattern" where
  "escapeRegExp str = map PatternCharacter str"

text \<open>
  \<^verbatim>\<open>new RegExp(escapedKeyword, 'i').test(s)\<close>: the atoms are matched one after the
  other from a start offset, and the start offsets are tried from \<open>0\<close> up to the
  length of the subject.
\<close>

fun atomsMatchAt :: "pattern \<Rightarrow> string \<Rightarrow> bool" where
  "atomsMatchAt [] s = True"
| "atomsMatchAt (PatternCharacter p # ps) [] = False"
| "atomsMatchAt (PatternCharacter p # ps) (c # cs) =
     (canonicalize p = canonicalize c \<and> atomsMatchAt ps cs)"

fun regexp_test :: "pattern \<Rightarrow> string \<Rightarrow> bool" where
  "regexp_test pat [] = atomsMatchAt pat []"
| "regexp_test pat (c # cs) = (atomsMatchAt pat (c # cs) \<or> regexp_test pat cs)"




subsection \<open>Array primitives of the language\<close>

text \<open>\<^verbatim>\<open>findIndex\<close> returns \<open>-1\<close> when no element satisfies the predicate.\<close>

fun findIndexFrom :: "nat \<Rightarrow> ('a \<Rightarrow> bool) \<Rightarrow> 'a list \<Rightarrow> int" where
  "findIndexFrom index P [] = - 1"
| "findIndexFrom index P (x # xs) =
     (if P x then int index else findIndexFrom (Suc index) P xs)"

definition findIndex :: "('a \<Rightarrow> bool) \<Rightarrow> 'a list \<Rightarrow> int" where
  "findIndex P xs = findIndexFrom 0 P xs"

subsection \<open>Opening, searching and closing\<close>

definition priv_canOpenCompletion :: "event \<Rightarrow> bool" where
  "priv_canOpenCompletion ev =
     ((ctrlKey ev \<and> key ev = '' '') \<or>
      (length (key ev) = 1 \<and>
         key ev \<notin> set ['' '', '','', ''.''] \<and>
         \<not> altKey ev \<and> \<not> ctrlKey ev \<and> \<not> metaKey ev \<and> \<not> isComposing ev) \<or>
      (isComposing ev \<and> key ev = ''Enter''))"

definition priv_closeCompletion :: "'m cmp \<Rightarrow> 'm cmp" where
  "priv_closeCompletion c = c\<lparr>isCompletionVisible := False\<rparr>"

text \<open>
  The filter and the map of \<^verbatim>\<open>_searchCompletionFields\<close>, as a function of the
  keyword and of the catalog.
\<close>

definition searchFields :: "string \<Rightarrow> 'm field list \<Rightarrow> 'm candidate list" where
  "searchFields keyword metaFields =
     (let keywordPattern = escapeRegExp keyword
      in map (\<lambda>(index, field).
               \<lparr>name = name field, label = label field, extra = extra field,
                itemLabel = name field @ '' / '' @ label field,
                isActive = (index = 0)\<rparr>)
           (enumerate 0
              (filter (\<lambda>field. regexp_test keywordPattern (name field @ '' '' @ label field))
                 metaFields)))"

text \<open>
  An \<^verbatim>\<open>undefined\<close> start offset of \<^verbatim>\<open>substring\<close> counts as \<open>0\<close>. Reading \<^verbatim>\<open>fields\<close>
  of an \<^verbatim>\<open>undefined\<close> \<^verbatim>\<open>_sobjectMeta\<close> throws.
\<close>

definition priv_searchCompletionFields :: "'m cmp \<Rightarrow> event \<Rightarrow> 'm outcome" where
  "priv_searchCompletionFields c ev =
     (let keyword =
            substring (ta_value (target ev))
              (case p_selectionStart c of None \<Rightarrow> 0 | Some b \<Rightarrow> b)
              (selectionEnd (target ev))
      in case p_sobjectMeta c of
           None \<Rightarrow> Inl (TypeError, c)
         | Some metaFields \<Rightarrow>
             (let c1 = c\<lparr>completionFields := Some (searchFields keyword metaFields)\<rparr>
              in if length (searchFields keyword metaFields) > 0
                 then Inr (c1\<lparr>isCompletionVisible := True\<rparr>)
                 else Inr (c1\<lparr>isCompletionVisible := False\<rparr>)))"

text \<open>
  \<^verbatim>\<open>_findSeparator(...) || target.selectionEnd\<close>: the right operand is taken when the
  left one is \<^verbatim>\<open>null\<close> or \<open>0\<close>.
\<close>

definition priv_openCompletion :: "'m cmp \<Rightarrow> event \<Rightarrow> 'm outcome" where
  "priv_openCompletion c ev =
     (let c1 = c\<lparr>p_selectionStart :=
                  Some (case priv_findSeparator
                               (substring (ta_value (target ev)) 0 (selectionEnd (target ev))) of
                          None \<Rightarrow> selectionEnd (target ev)
                        | Some k \<Rightarrow> if k = 0 then selectionEnd (target ev) else k)\<rparr>
      in if priv_canOpenCompletion ev then priv_searchCompletionFields c1 ev else Inr c1)"

definition priv_deleteKeyword :: "'m cmp \<Rightarrow> event \<Rightarrow> 'm outcome" where
  "priv_deleteKeyword c ev =
     (case priv_searchCompletionFields c ev of
        Inl thrown \<Rightarrow> Inl thrown
      | Inr c1 \<Rightarrow>
          if p_selectionStart c1 = Some (selectionStart (target ev))
          then Inr (priv_closeCompletion c1)
          else Inr c1)"

definition priv_handleCompletion :: "'m cmp \<Rightarrow> event \<Rightarrow> 'm outcome" where
  "priv_handleCompletion c ev =
     (let c1 = (if altKey ev \<or> ctrlKey ev \<or> metaKey ev then priv_closeCompletion c else c)
      in if key ev \<in> set [''.'', '','', '' '', ''Escape'', ''ArrowLeft'', ''ArrowRight'']
         then Inr (priv_closeCompletion c1)
         else if key ev = ''Backspace'' then priv_deleteKeyword c1 ev
         else if key ev \<in> set [''ArrowDown'', ''ArrowUp'', ''Enter'']
         then (if isComposing ev then priv_searchCompletionFields c1 ev else Inr c1)
         else priv_searchCompletionFields c1 ev)"

definition handleKeyupSoql :: "'m cmp \<Rightarrow> event \<Rightarrow> 'm outcome" where
  "handleKeyupSoql c ev =
     (let c1 = (if p_soql c \<noteq> Some (ta_value (target ev))
                then c\<lparr>dispatched := dispatched c @ [UpdateSoql (ta_value (target ev))]\<rparr>
                else c)
      in if p_sobjectMeta c1 = None then Inr c1
         else if \<not> isCompletionVisible c1 then priv_openCompletion c1 ev
         else priv_handleCompletion c1 ev)"

subsection \<open>The selection among the completion fields\<close>

text \<open>Calling \<^verbatim>\<open>findIndex\<close>, \<^verbatim>\<open>find\<close> or \<^verbatim>\<open>map\<close> on an \<^verbatim>\<open>undefined\<close> list throws.\<close>

definition priv_getActiveFieldIndex :: "'m cmp \<Rightarrow> error + int" where
  "priv_getActiveFieldIndex c =
     (case completionFields c of
        None \<Rightarrow> Inl TypeError
      | Some fs \<Rightarrow> Inr (findIndex isActive fs))"

definition priv_selectBellowField :: "'m cmp \<Rightarrow> 'm outcome" where
  "priv_selectBellowField c =
     (case priv_getActiveFieldIndex c of
        Inl e \<Rightarrow> Inl (e, c)
      | Inr activeIndex \<Rightarrow>
          (case completionFields c of
             None \<Rightarrow> Inl (TypeError, c)
           | Some fs \<Rightarrow>
               if activeIndex + 1 < int (length fs)
               then Inr (c\<lparr>completionFields :=
                            Some (map (\<lambda>(index, field).
                                         field\<lparr>isActive := (int index = activeIndex + 1)\<rparr>)
                                    (enumerate 0 fs))\<rparr>)
               else Inr c))"

definition priv_selectAboveField :: "'m cmp \<Rightarrow> 'm outcome" where
  "priv_selectAboveField c =
     (case priv_getActiveFieldIndex c of
        Inl e \<Rightarrow> Inl (e, c)
      | Inr activeIndex \<Rightarrow>
          if activeIndex > 0
          then (case completionFields c of
                  None \<Rightarrow> Inl (TypeError, c)
                | Some fs \<Rightarrow>
                    Inr (c\<lparr>completionFields :=
                             Some (map (\<lambda>(index, field).
                                          field\<lparr>isActive := (int index = activeIndex - 1)\<rparr>)
                                     (enumerate 0 fs))\<rparr>))
          else Inr c)"

subsection \<open>Inserting the selected field\<close>

text \<open>
  \<^verbatim>\<open>stripNamespace\<close> of \<^verbatim>\<open>service/salesforce\<close> is imported by the panel and is not part
  of the sources at hand: it is a parameter of \<^verbatim>\<open>_insertField\<close> and of its callers,
  taken to return a string for every name.
  The element passed to \<^verbatim>\<open>_insertField\<close> is the \<^verbatim>\<open>.soql-input\<close> element, which the
  setter of \<^verbatim>\<open>soql\<close> writes as well; \<open>None\<close> is a template without it, whose \<^verbatim>\<open>value\<close>
  cannot be read. An \<^verbatim>\<open>undefined\<close> end offset of \<^verbatim>\<open>substring\<close> is the length of the
  string, and \<^verbatim>\<open>setSelectionRange\<close> reads the number that \<^verbatim>\<open>undefined\<close> plus a length
  gives as \<open>0\<close>.
\<close>

definition priv_insertField ::
    "(string \<Rightarrow> string) \<Rightarrow> 'm cmp \<Rightarrow> textarea option \<Rightarrow> 'm candidate option \<Rightarrow> 'm dom_outcome" where
  "priv_insertField stripNamespace c textarea selectedField =
     (case selectedField of
        None \<Rightarrow> Inr (priv_closeCompletion c, textarea)
      | Some sel \<Rightarrow>
          (case textarea of
             None \<Rightarrow> Inl (TypeError, c, None)
           | Some t \<Rightarrow>
               (let soql = ta_value t;
                    preSoql = (case p_selectionStart c of
                                 None \<Rightarrow> soql
                               | Some b \<Rightarrow> substring soql 0 b);
                    postSoql = substring_from soql (selectionStart t);
                    strippedFieldName = stripNamespace (name sel);
                    newSoql = preSoql @ strippedFieldName @ postSoql;
                    (c1, el1) = set_soql c (Some t) newSoql;
                    insertedIndex = (case p_selectionStart c of
                                       None \<Rightarrow> 0
                                     | Some b \<Rightarrow> b + length strippedFieldName);
                    el2 = map_option (\<lambda>t1. setSelectionRange t1 insertedIndex insertedIndex) el1;
                    c2 = c1\<lparr>dispatched := dispatched c1 @ [UpdateSoql newSoql]\<rparr>
                in Inr (priv_closeCompletion c2, el2))))"

definition priv_insertFieldByKeyboard ::
    "(string \<Rightarrow> string) \<Rightarrow> 'm cmp \<Rightarrow> event \<Rightarrow> 'm dom_outcome" where
  "priv_insertFieldByKeyboard stripNamespace c ev =
     (case completionFields c of
        None \<Rightarrow> Inl (TypeError, c, Some (target ev))
      | Some fs \<Rightarrow> priv_insertField stripNamespace c (Some (target ev)) (find isActive fs))"

text \<open>
  The click on a list item: \<open>dataName\<close> is \<^verbatim>\<open>event.target.dataset.name\<close> and \<open>inputEl\<close>
  what \<^verbatim>\<open>querySelector\<close> finds. A timer identifier of \<open>0\<close> counts as no timer.
\<close>

definition insertField ::
    "(string \<Rightarrow> string) \<Rightarrow> 'm cmp \<Rightarrow> string \<Rightarrow> textarea option \<Rightarrow> 'm dom_outcome" where
  "insertField stripNamespace c dataName inputEl =
     (let c1 = (case p_closeCompletionTimer c of
                  None \<Rightarrow> c
                | Some timer \<Rightarrow>
                    if timer = 0 then c
                    else c\<lparr>pendingTimeouts := removeAll timer (pendingTimeouts c)\<rparr>)
      in case completionFields c1 of
           None \<Rightarrow> Inl (TypeError, c1, inputEl)
         | Some fs \<Rightarrow>
             priv_insertField stripNamespace c1 inputEl
               (find (\<lambda>field. name field = dataName) fs))"

subsection \<open>Key down, blur and the store\<close>

definition handleKeydownSoql ::
    "(string \<Rightarrow> string) \<Rightarrow> 'm cmp \<Rightarrow> event \<Rightarrow> 'm dom_outcome" where
  "handleKeydownSoql stripNamespace c ev =
     (if isCompletionVisible c
      then (if isComposing ev then Inr (c, Some (target ev))
            else if key ev = ''ArrowDown''
            then with_element (Some (target ev)) (priv_selectBellowField c)
            else if key ev = ''ArrowUp''
            then with_element (Some (target ev)) (priv_selectAboveField c)
            else if key ev = ''Enter''
            then priv_insertFieldByKeyboard stripNamespace c ev
            else Inr (c, Some (target ev)))
      else (if isComposing ev \<and> key ev = ''Enter''
            then with_element (Some (target ev)) (priv_openCompletion c ev)
            else Inr (c, Some (target ev))))"

text \<open>
  \<^verbatim>\<open>setTimeout\<close> hands out a fresh identifier and remembers the callback, which is
  always \<^verbatim>\<open>_closeCompletion\<close>; the timeout fires later, unless it was cleared.
\<close>

definition handleBlurSoql :: "'m cmp \<Rightarrow> 'm cmp" where
  "handleBlurSoql c =
     c\<lparr>p_closeCompletionTimer := Some (nextTimeoutId c),
       pendingTimeouts := pendingTimeouts c @ [nextTimeoutId c],
       nextTimeoutId := Suc (nextTimeoutId c)\<rparr>"

definition timeoutFires :: "'m cmp \<Rightarrow> nat \<Rightarrow> 'm cmp" where
  "timeoutFires c timer =
     (if timer \<in> set (pendingTimeouts c)
      then priv_closeCompletion (c\<lparr>pendingTimeouts := removeAll timer (pendingTimeouts c)\<rparr>)
      else c)"

text \<open>
  The store hands over the describe results by object name and the query and text of
  the editor. \<^verbatim>\<open>fullApiName\<close> of \<^verbatim>\<open>service/salesforce\<close> is not part of the sources at
  hand and is a parameter.
\<close>

record 'm sobject_state =
  data :: "'m field list option"

record query =
  sObject :: string

definition storeChange ::
    "(string \<Rightarrow> string) \<Rightarrow> 'm cmp \<Rightarrow> textarea option \<Rightarrow>
     (string \<Rightarrow> 'm sobject_state option) option \<Rightarrow> query option \<Rightarrow> string \<Rightarrow>
     'm cmp \<times> textarea option" where
  "storeChange fullApiName c inputEl sobject uiQuery uiSoql =
     (let c1 = (case sobject of
                  None \<Rightarrow> c
                | Some sobjects \<Rightarrow>
                    (case uiQuery of
                       None \<Rightarrow> c
                     | Some q \<Rightarrow>
                         (case sobjects (fullApiName (sObject q)) of
                            None \<Rightarrow> c
                          | Some sobjectState \<Rightarrow> c\<lparr>p_sobjectMeta := data sobjectState\<rparr>)))
      in if Some uiSoql \<noteq> p_soql c1 then set_soql c1 inputEl uiSoql else (c1, inputEl))"

subsection \<open>The panel as a state machine\<close>

datatype 'm ui_event =
    KeyUp event
  | KeyDown event
  | Blur
  | TimeoutFires nat
  | CandidateChosen string "textarea option"
  | StoreChange "(string \<Rightarrow> 'm sobject_state option) option" "query option" string "textarea option"

text \<open>
  One event, handled to its end. An exception ends the handler and leaves the state
  as it is at the throw. Each event brings the element as the user left it, so the
  element is not part of the state between events.
\<close>

definition step ::
    "(string \<Rightarrow> string) \<Rightarrow> (string \<Rightarrow> string) \<Rightarrow> 'm cmp \<Rightarrow> 'm ui_event \<Rightarrow> 'm cmp" where
  "step stripNamespace fullApiName c e =
     (case e of
        KeyUp ev \<Rightarrow> state_of (handleKeyupSoql c ev)
      | KeyDown ev \<Rightarrow> dom_state_of (handleKeydownSoql stripNamespace c ev)
      | Blur \<Rightarrow> handleBlurSoql c
      | TimeoutFires timer \<Rightarrow> timeoutFires c timer
      | CandidateChosen dataName inputEl \<Rightarrow>
          dom_state_of (insertField stripNamespace c dataName inputEl)
      | StoreChange sobject uiQuery uiSoql inputEl \<Rightarrow>
          fst (storeChange fullApiName c inputEl sobject uiQuery uiSoql))"

fun run ::
    "(string \<Rightarrow> string) \<Rightarrow> (string \<Rightarrow> string) \<Rightarrow> 'm cmp \<Rightarrow> 'm ui_event list \<Rightarrow> 'm cmp" where
  "run stripNamespace fullApiName c [] = c"
| "run stripNamespace fullApiName c (e # es) =
     run stripNamespace fullApiName (step stripNamespace fullApiName c e) es"

subsection \<open>Notions used in the statements\<close>

text \<open>The descriptor a completion field was made from.\<close>

definition descriptor_of :: "'m candidate \<Rightarrow> 'm field" where
  "descriptor_of cand = \<lparr>name = name cand, label = label cand, extra = extra cand\<rparr>"

text \<open>The list in which the field at index \<open>k\<close>, and no other, is active.\<close>

definition markActive :: "int \<Rightarrow> 'm candidate list \<Rightarrow> 'm candidate list" where
  "markActive k fs =
     map (\<lambda>(index, field). field\<lparr>isActive := (int index = k)\<rparr>) (enumerate 0 fs)"

text \<open>A visible completion has a list, and the list has an element.\<close>

definition openHasCandidates :: "'m cmp \<Rightarrow> bool" where
  "openHasCandidates c =
     (if isCompletionVisible c
      then (case completionFields c of None \<Rightarrow> False | Some fs \<Rightarrow> fs \<noteq> [])
      else True)"

subsection \<open>Sample data\<close>

definition nameField :: "unit field" where
  "nameField = \<lparr>name = ''Name'', label = ''Name'', extra = ()\<rparr>"

definition idField :: "unit field" where
  "idField = \<lparr>name = ''Id'', label = ''Record ID'', extra = ()\<rparr>"


definition nameCandidate :: "bool \<Rightarrow> unit candidate" where
  "nameCandidate active =
     \<lparr>name = ''Name'', label = ''Name'', extra = (),
      itemLabel = ''Name / Name'', isActive = active\<rparr>"

definition idCandidate :: "bool \<Rightarrow> unit candidate" where
  "idCandidate active =
     \<lparr>name = ''Id'', label = ''Record ID'', extra = (),
      itemLabel = ''Id / Record ID'', isActive = active\<rparr>"

text \<open>
  A panel whose completion is open on the token that starts at offset 7, and a key
  event without modifiers on a text with a collapsed selection.
\<close>

definition openPanel :: "unit candidate list \<Rightarrow> unit cmp" where
  "openPanel cs =
     \<lparr>isCompletionVisible = True, completionFields = Some cs,
      p_sobjectMeta = Some [nameField, idField], p_selectionStart = Some 7,
      p_soql = Some ''SELECT Na'', p_closeCompletionTimer = None,
      pendingTimeouts = [], nextTimeoutId = 1, dispatched = []\<rparr>"

definition keyEvent :: "string \<Rightarrow> string \<Rightarrow> nat \<Rightarrow> event" where
  "keyEvent k str caret =
     \<lparr>key = k, altKey = False, ctrlKey = False, metaKey = False, isComposing = False,
      target = \<lparr>ta_value = str, selectionStart = caret, selectionEnd = caret\<rparr>\<rparr>"

section \<open>Properties\<close>

subsection \<open>The boundary finder\<close>

lemma separatorExec_None:
  "separatorExec i v = None \<longleftrightarrow> (\<forall>c\<in>set v. \<not> isSeparatorChar c)"
  by (induction v arbitrary: i) (auto simp: list_all_iff)

lemma separatorExec_Some:
  "separatorExec i v = Some j \<longleftrightarrow>
     (\<exists>pre c post. v = pre @ c # post \<and> isSeparatorChar c \<and>
        (\<forall>d\<in>set post. \<not> isSeparatorChar d) \<and> j = i + length pre)"
proof (induction v arbitrary: i)
  case Nil
  then show ?case by simp
next
  case (Cons c cs)
  show ?case
  proof (cases "separatorMatchesAt (c # cs)")
    case True
    then have c: "isSeparatorChar c" and cs: "\<forall>d\<in>set cs. \<not> isSeparatorChar d"
      by (auto simp: list_all_iff)
    have "(\<exists>pre c' post. c # cs = pre @ c' # post \<and> isSeparatorChar c' \<and>
        (\<forall>d\<in>set post. \<not> isSeparatorChar d) \<and> j = i + length pre) \<longleftrightarrow> j = i"
    proof
      assume "\<exists>pre c' post. c # cs = pre @ c' # post \<and> isSeparatorChar c' \<and>
        (\<forall>d\<in>set post. \<not> isSeparatorChar d) \<and> j = i + length pre"
      then obtain pre c' post where
        d: "c # cs = pre @ c' # post" "isSeparatorChar c'" "j = i + length pre"
        by blast
      have "pre = []"
      proof (cases pre)
        case Nil
        then show ?thesis .
      next
        case (Cons p ps)
        with d(1) have "c' \<in> set cs" by auto
        with cs d(2) show ?thesis by blast
      qed
      with d(3) show "j = i" by simp
    next
      assume "j = i"
      with c cs show "\<exists>pre c' post. c # cs = pre @ c' # post \<and> isSeparatorChar c' \<and>
        (\<forall>d\<in>set post. \<not> isSeparatorChar d) \<and> j = i + length pre"
        by (intro exI[of _ "[]"] exI[of _ c] exI[of _ cs]) simp
    qed
    moreover from True have "separatorExec i (c # cs) = Some i"
      by (simp del: separatorMatchesAt.simps)
    ultimately show ?thesis by (auto simp del: separatorExec.simps)
  next
    case False
    have "(\<exists>pre c' post. c # cs = pre @ c' # post \<and> isSeparatorChar c' \<and>
        (\<forall>d\<in>set post. \<not> isSeparatorChar d) \<and> j = i + length pre) \<longleftrightarrow>
       (\<exists>pre c' post. cs = pre @ c' # post \<and> isSeparatorChar c' \<and>
        (\<forall>d\<in>set post. \<not> isSeparatorChar d) \<and> j = Suc i + length pre)" (is "?L \<longleftrightarrow> ?R")
    proof
      assume ?L
      then obtain pre c' post where
        d: "c # cs = pre @ c' # post" "isSeparatorChar c'"
           "\<forall>d\<in>set post. \<not> isSeparatorChar d" "j = i + length pre"
        by blast
      show ?R
      proof (cases pre)
        case Nil
        with d False show ?thesis by (auto simp: list_all_iff)
      next
        case (Cons p ps)
        with d show ?thesis by auto
      qed
    next
      assume ?R
      then obtain pre c' post where
        d: "cs = pre @ c' # post" "isSeparatorChar c'"
           "\<forall>d\<in>set post. \<not> isSeparatorChar d" "j = Suc i + length pre"
        by blast
      then show ?L
        by (intro exI[of _ "c # pre"] exI[of _ c'] exI[of _ post]) simp
    qed
    moreover from False have "separatorExec i (c # cs) = separatorExec (Suc i) cs"
      by (simp del: separatorMatchesAt.simps)
    ultimately show ?thesis using Cons.IH[of "Suc i"] by (simp del: separatorExec.simps)
  qed
qed

lemma findSeparator_Some:
  "priv_findSeparator v = Some k \<longleftrightarrow>
     (0 < k \<and> k \<le> length v \<and> isSeparatorChar (v ! (k - 1)) \<and>
      (\<forall>d\<in>set (drop k v). \<not> isSeparatorChar d))" (is "?L \<longleftrightarrow> ?R")
proof
  assume ?L
  then obtain j where j: "separatorExec 0 v = Some j" "k = Suc j"
    by (auto simp: priv_findSeparator_def split: option.splits)
  then obtain pre c post where d: "v = pre @ c # post" "isSeparatorChar c"
      "\<forall>d\<in>set post. \<not> isSeparatorChar d" "j = length pre"
    by (auto simp: separatorExec_Some)
  with j(2) show ?R by (simp add: nth_append)
next
  assume r: ?R
  then obtain j where j: "k = Suc j" by (cases k) auto
  with r have "v = take j v @ v ! j # drop k v"
    by (simp add: id_take_nth_drop)
  with r j have "separatorExec 0 v = Some j"
    unfolding separatorExec_Some
    by (intro exI[of _ "take j v"] exI[of _ "v ! j"] exI[of _ "drop k v"]) auto
  with j show ?L by (simp add: priv_findSeparator_def)
qed

lemma findSeparator_None:
  "priv_findSeparator v = None \<longleftrightarrow> (\<forall>c\<in>set v. \<not> isSeparatorChar c)"
proof -
  have "priv_findSeparator v = None \<longleftrightarrow> separatorExec 0 v = None"
    by (simp add: priv_findSeparator_def split: option.splits)
  then show ?thesis by (simp add: separatorExec_None)
qed

text \<open>
  Claim C3. \<^verbatim>\<open>_findSeparator\<close> returns \<open>k\<close> exactly when the character before offset
  \<open>k\<close> is a separator (space, comma or period) and no separator follows it, that is,
  \<open>k\<close> is the offset right after the last separator, where the trailing token starts.
  It returns nothing exactly when the text has no separator. For the text before the
  caret at offset 9 of \<^verbatim>\<open>SELECT Na FROM Account\<close>, which is \<^verbatim>\<open>SELECT Na\<close>, it returns 7.
\<close>

theorem findSeparator_boundary:
  "(priv_findSeparator v = Some k \<longleftrightarrow>
      (0 < k \<and> k \<le> length v \<and> isSeparatorChar (v ! (k - 1)) \<and>
       (\<forall>d\<in>set (drop k v). \<not> isSeparatorChar d))) \<and>
   (priv_findSeparator v = None \<longleftrightarrow> (\<forall>c\<in>set v. \<not> isSeparatorChar c)) \<and>
   substring ''SELECT Na FROM Account'' 0 9 = ''SELECT Na'' \<and>
   priv_findSeparator ''SELECT Na'' = Some 7"
proof -
  have "substring ''SELECT Na FROM Account'' 0 9 = ''SELECT Na''"
    by (simp add: substring_def)
  moreover have "priv_findSeparator ''SELECT Na'' = Some 7"
    by (simp add: priv_findSeparator_def isSeparatorChar_def)
  ultimately show ?thesis
    using findSeparator_Some[of v k] findSeparator_None[of v] by blast
qed

theorem findSeparator_boundary_witness:
  "isSeparatorChar (''a.b,c de'' ! (6 - 1)) \<and>
   \<not> list_ex isSeparatorChar (drop 6 ''a.b,c de'') \<and>
   priv_findSeparator ''a.b,c de'' = Some 6 \<and>
   \<not> list_ex isSeparatorChar ''SELECT'' \<and>
   priv_findSeparator ''SELECT'' = None"
proof -
  have h: "0 < (6::nat) \<and> 6 \<le> length ''a.b,c de'' \<and> isSeparatorChar (''a.b,c de'' ! (6 - 1)) \<and>
    (\<forall>d\<in>set (drop 6 ''a.b,c de''). \<not> isSeparatorChar d)"
    by (simp add: isSeparatorChar_def)
  have n: "\<forall>c\<in>set ''SELECT''. \<not> isSeparatorChar c"
    by (simp add: isSeparatorChar_def)
  have "priv_findSeparator ''a.b,c de'' = Some 6"
    using h findSeparator_boundary[of "''a.b,c de''" 6] by blast
  moreover have "priv_findSeparator ''SELECT'' = None"
    using n findSeparator_boundary[of "''SELECT''" 0] by blast
  ultimately show ?thesis
    using h n by (simp add: list_ex_iff)
qed

subsection \<open>The candidate filter\<close>
















lemma itemLabel_searchFields:
  "i < length (searchFields kw fs) \<Longrightarrow>
   itemLabel (searchFields kw fs ! i) =
     name (searchFields kw fs ! i) @ '' / '' @ label (searchFields kw fs ! i)"
  by (simp add: searchFields_def nth_enumerate_eq)





subsection \<open>The selection tracker\<close>

lemma findIndexFrom_range:
  "findIndexFrom n P xs = - 1 \<or>
   (int n \<le> findIndexFrom n P xs \<and> findIndexFrom n P xs < int n + int (length xs))"
proof (induction xs arbitrary: n)
  case Nil
  then show ?case by simp
next
  case (Cons x xs)
  from Cons[of "Suc n"] show ?case by auto
qed

lemma findIndexFrom_found:
  "\<exists>x\<in>set xs. P x \<Longrightarrow> findIndexFrom n P xs \<noteq> - 1"
proof (induction xs arbitrary: n)
  case Nil
  then show ?case by simp
next
  case (Cons x xs)
  show ?case
  proof (cases "P x")
    case True
    then show ?thesis by simp
  next
    case False
    with Cons.prems have "\<exists>x\<in>set xs. P x" by simp
    from Cons.IH[OF this, of "Suc n"] False show ?thesis by simp
  qed
qed

lemma findIndex_bounds:
  assumes "filter P xs \<noteq> []"
  shows "0 \<le> findIndex P xs \<and> findIndex P xs < int (length xs)"
proof -
  from assms have ex: "\<exists>x\<in>set xs. P x"
    by (metis filter_False)
  from findIndexFrom_found[OF ex, of 0] findIndexFrom_range[of 0 P xs]
  show ?thesis by (auto simp: findIndex_def)
qed

lemma count_active_enumerate:
  "length (filter isActive
      (map (\<lambda>(index, field). field\<lparr>isActive := (int index = k)\<rparr>) (enumerate n fs))) =
   (if int n \<le> k \<and> k < int n + int (length fs) then 1 else 0)"
proof (induction fs arbitrary: n)
  case Nil
  then show ?case by simp
next
  case (Cons f fs)
  from Cons[of "Suc n"] show ?case
    by (auto simp del: length_filter_map)
qed

lemma count_markActive:
  "length (filter isActive (markActive k fs)) =
     (if 0 \<le> k \<and> k < int (length fs) then 1 else 0)"
  using count_active_enumerate[of k 0 fs] by (simp add: markActive_def)

lemma frame_enumerate:
  "(\<And>field v. g (field\<lparr>isActive := v\<rparr>) = g field) \<Longrightarrow>
   map g (map (\<lambda>(index, field). field\<lparr>isActive := (int index = k)\<rparr>) (enumerate n fs)) =
     map g fs"
  by (induction fs arbitrary: n) auto

lemma frame_markActive:
  "(\<And>field v. g (field\<lparr>isActive := v\<rparr>) = g field) \<Longrightarrow> map g (markActive k fs) = map g fs"
  unfolding markActive_def by (rule frame_enumerate)

lemma length_markActive: "length (markActive k fs) = length fs"
  by (simp add: markActive_def)

lemma selectBellow_eq:
  "completionFields c = Some cs \<Longrightarrow>
   priv_selectBellowField c =
     Inr (c\<lparr>completionFields :=
              Some (if findIndex isActive cs + 1 < int (length cs)
                    then markActive (findIndex isActive cs + 1) cs else cs)\<rparr>)"
  by (simp add: priv_selectBellowField_def priv_getActiveFieldIndex_def markActive_def)

lemma selectAbove_eq:
  "completionFields c = Some cs \<Longrightarrow>
   priv_selectAboveField c =
     Inr (c\<lparr>completionFields :=
              Some (if findIndex isActive cs > 0
                    then markActive (findIndex isActive cs - 1) cs else cs)\<rparr>)"
  by (simp add: priv_selectAboveField_def priv_getActiveFieldIndex_def markActive_def)

lemma frame_step:
  assumes "cs' = cs \<or> cs' = markActive k cs"
  shows "length cs' = length cs \<and>
         map (\<lambda>field. field\<lparr>isActive := False\<rparr>) cs' =
           map (\<lambda>field. field\<lparr>isActive := False\<rparr>) cs \<and>
         map descriptor_of cs' = map descriptor_of cs \<and>
         map itemLabel cs' = map itemLabel cs"
proof -
  have "length (markActive k cs) = length cs"
    by (rule length_markActive)
  moreover have "map (\<lambda>field. field\<lparr>isActive := False\<rparr>) (markActive k cs) =
      map (\<lambda>field. field\<lparr>isActive := False\<rparr>) cs"
    by (simp add: frame_markActive)
  moreover have "map descriptor_of (markActive k cs) = map descriptor_of cs"
    by (simp add: frame_markActive descriptor_of_def)
  moreover have "map itemLabel (markActive k cs) = map itemLabel cs"
    by (simp add: frame_markActive)
  ultimately show ?thesis using assms by auto
qed

text \<open>
  Claim C5. When the list of completion fields has exactly one active field, it has
  exactly one active field after \<^verbatim>\<open>_selectBellowField\<close> (Next) and after
  \<^verbatim>\<open>_selectAboveField\<close> (Prev); both return without an exception and change no other
  field of the panel.
\<close>

theorem select_keeps_one_active:
  assumes "completionFields c = Some cs" and "length (filter isActive cs) = 1"
  shows "(\<exists>cs'. priv_selectBellowField c = Inr (c\<lparr>completionFields := Some cs'\<rparr>) \<and>
            length (filter isActive cs') = 1) \<and>
         (\<exists>cs'. priv_selectAboveField c = Inr (c\<lparr>completionFields := Some cs'\<rparr>) \<and>
            length (filter isActive cs') = 1)"
proof -
  from assms(2) have ne: "filter isActive cs \<noteq> []" by auto
  note b = findIndex_bounds[OF ne]
  let ?down = "if findIndex isActive cs + 1 < int (length cs)
               then markActive (findIndex isActive cs + 1) cs else cs"
  let ?up = "if findIndex isActive cs > 0
             then markActive (findIndex isActive cs - 1) cs else cs"
  have "length (filter isActive ?down) = 1"
    using assms(2) b by (simp add: count_markActive)
  moreover have "length (filter isActive ?up) = 1"
    using assms(2) b by (simp add: count_markActive)
  ultimately show ?thesis
    using selectBellow_eq[OF assms(1)] selectAbove_eq[OF assms(1)] by blast
qed

theorem select_keeps_one_active_witness:
  "completionFields (openPanel [nameCandidate True, idCandidate False]) =
     Some [nameCandidate True, idCandidate False] \<and>
   length (filter isActive [nameCandidate True, idCandidate False]) = 1 \<and>
   (\<exists>cs'. priv_selectBellowField (openPanel [nameCandidate True, idCandidate False]) =
            Inr ((openPanel [nameCandidate True, idCandidate False])\<lparr>completionFields := Some cs'\<rparr>) \<and>
          length (filter isActive cs') = 1) \<and>
   (\<exists>cs'. priv_selectAboveField (openPanel [nameCandidate True, idCandidate False]) =
            Inr ((openPanel [nameCandidate True, idCandidate False])\<lparr>completionFields := Some cs'\<rparr>) \<and>
          length (filter isActive cs') = 1)"
proof -
  have f: "completionFields (openPanel [nameCandidate True, idCandidate False]) =
     Some [nameCandidate True, idCandidate False]"
    by (simp add: openPanel_def)
  have n: "length (filter isActive [nameCandidate True, idCandidate False]) = 1"
    by (simp add: nameCandidate_def idCandidate_def)
  from select_keeps_one_active[OF f n] f n show ?thesis by blast
qed

lemma findIndexFrom_last:
  "\<forall>x\<in>set xs. \<not> P x \<Longrightarrow> P a \<Longrightarrow> findIndexFrom n P (xs @ [a]) = int (n + length xs)"
  by (induction xs arbitrary: n) simp_all

text \<open>
  Claim C6. When the index of the active field, as \<^verbatim>\<open>_getActiveFieldIndex\<close> finds it,
  is the last index of the list, \<^verbatim>\<open>_selectBellowField\<close> (Next) leaves the panel, and so
  the list, as it is; when it is index 0, \<^verbatim>\<open>_selectAboveField\<close> (Prev) leaves the panel
  as it is. In particular Next does nothing when the last field is the one active
  field, and Prev does nothing when the first field is active.
\<close>

theorem select_does_not_wrap:
  assumes "completionFields c = Some cs"
  shows "(priv_getActiveFieldIndex c = Inr (int (length cs) - 1) \<longrightarrow>
            priv_selectBellowField c = Inr c) \<and>
         (priv_getActiveFieldIndex c = Inr 0 \<longrightarrow> priv_selectAboveField c = Inr c) \<and>
         (cs = inactive @ [a] \<and> isActive a \<and> (\<forall>x\<in>set inactive. \<not> isActive x) \<longrightarrow>
            priv_selectBellowField c = Inr c) \<and>
         (cs = a # rest \<and> isActive a \<longrightarrow> priv_selectAboveField c = Inr c)"
proof -
  have last: "findIndex isActive cs = int (length cs) - 1"
    if "cs = inactive @ [a]" "isActive a" "\<forall>x\<in>set inactive. \<not> isActive x"
    using findIndexFrom_last[OF that(3) that(2), of 0] that(1) by (simp add: findIndex_def)
  have first: "findIndex isActive cs = 0" if "cs = a # rest" "isActive a"
    using that by (simp add: findIndex_def)
  have down: "priv_selectBellowField c = Inr c" if "findIndex isActive cs = int (length cs) - 1"
    using assms that by (simp add: priv_selectBellowField_def priv_getActiveFieldIndex_def)
  have up: "priv_selectAboveField c = Inr c" if "findIndex isActive cs = 0"
    using assms that by (simp add: priv_selectAboveField_def priv_getActiveFieldIndex_def)
  have idx: "priv_getActiveFieldIndex c = Inr (findIndex isActive cs)"
    using assms by (simp add: priv_getActiveFieldIndex_def)
  from last first down up show ?thesis unfolding idx by auto
qed

theorem select_does_not_wrap_witness:
  "priv_getActiveFieldIndex (openPanel [nameCandidate False, idCandidate True]) =
     Inr (int (length [nameCandidate False, idCandidate True]) - 1) \<and>
   isActive (idCandidate True) \<and> \<not> list_ex isActive [nameCandidate False] \<and>
   priv_selectBellowField (openPanel [nameCandidate False, idCandidate True]) =
     Inr (openPanel [nameCandidate False, idCandidate True]) \<and>
   priv_getActiveFieldIndex (openPanel [nameCandidate True, idCandidate False]) = Inr 0 \<and>
   isActive (nameCandidate True) \<and>
   priv_selectAboveField (openPanel [nameCandidate True, idCandidate False]) =
     Inr (openPanel [nameCandidate True, idCandidate False])"
proof -
  have f: "completionFields (openPanel cs) = Some cs" for cs
    by (simp add: openPanel_def)
  have l: "priv_getActiveFieldIndex (openPanel [nameCandidate False, idCandidate True]) =
     Inr (int (length [nameCandidate False, idCandidate True]) - 1)"
    by (simp add: priv_getActiveFieldIndex_def f findIndex_def nameCandidate_def idCandidate_def)
  have z: "priv_getActiveFieldIndex (openPanel [nameCandidate True, idCandidate False]) = Inr 0"
    by (simp add: priv_getActiveFieldIndex_def f findIndex_def nameCandidate_def)
  have a: "[nameCandidate False, idCandidate True] = [nameCandidate False] @ [idCandidate True] \<and>
      isActive (idCandidate True) \<and> (\<forall>x\<in>set [nameCandidate False]. \<not> isActive x)"
    and b: "[nameCandidate True, idCandidate False] = nameCandidate True # [idCandidate False] \<and>
      isActive (nameCandidate True)"
    by (simp_all add: nameCandidate_def idCandidate_def)
  note down = select_does_not_wrap[OF f, of "[nameCandidate False, idCandidate True]"
      "[nameCandidate False]" "idCandidate True" "[]"]
  note up = select_does_not_wrap[OF f, of "[nameCandidate True, idCandidate False]"
      "[]" "nameCandidate True" "[idCandidate False]"]
  have "priv_selectBellowField (openPanel [nameCandidate False, idCandidate True]) =
     Inr (openPanel [nameCandidate False, idCandidate True])"
    by (rule down[THEN conjunct1, THEN mp, OF l])
  moreover have "priv_selectBellowField (openPanel [nameCandidate False, idCandidate True]) =
     Inr (openPanel [nameCandidate False, idCandidate True])"
    by (rule down[THEN conjunct2, THEN conjunct2, THEN conjunct1, THEN mp, OF a])
  moreover have "priv_selectAboveField (openPanel [nameCandidate True, idCandidate False]) =
     Inr (openPanel [nameCandidate True, idCandidate False])"
    by (rule up[THEN conjunct2, THEN conjunct1, THEN mp, OF z])
  moreover have "priv_selectAboveField (openPanel [nameCandidate True, idCandidate False]) =
     Inr (openPanel [nameCandidate True, idCandidate False])"
    by (rule up[THEN conjunct2, THEN conjunct2, THEN conjunct2, THEN mp, OF b])
  moreover have "isActive (idCandidate True)" "\<not> list_ex isActive [nameCandidate False]"
      "isActive (nameCandidate True)"
    by (simp_all add: nameCandidate_def idCandidate_def)
  ultimately show ?thesis using l z by (intro conjI)
qed

text \<open>
  Claim C10. \<^verbatim>\<open>_selectBellowField\<close> and \<^verbatim>\<open>_selectAboveField\<close> change at most the
  \<^verbatim>\<open>isActive\<close> flags: the new list has the length of the old one and, position by
  position, the same fields once \<^verbatim>\<open>isActive\<close> is disregarded, in particular the same
  descriptors (name, label and the properties passed through) and the same item
  labels; no other field of the panel changes.
\<close>

theorem select_changes_only_isActive:
  assumes "completionFields c = Some cs"
  shows "(\<exists>cs'. priv_selectBellowField c = Inr (c\<lparr>completionFields := Some cs'\<rparr>) \<and>
            length cs' = length cs \<and>
            map (\<lambda>field. field\<lparr>isActive := False\<rparr>) cs' =
              map (\<lambda>field. field\<lparr>isActive := False\<rparr>) cs \<and>
            map descriptor_of cs' = map descriptor_of cs \<and>
            map itemLabel cs' = map itemLabel cs) \<and>
         (\<exists>cs'. priv_selectAboveField c = Inr (c\<lparr>completionFields := Some cs'\<rparr>) \<and>
            length cs' = length cs \<and>
            map (\<lambda>field. field\<lparr>isActive := False\<rparr>) cs' =
              map (\<lambda>field. field\<lparr>isActive := False\<rparr>) cs \<and>
            map descriptor_of cs' = map descriptor_of cs \<and>
            map itemLabel cs' = map itemLabel cs)"
proof -
  let ?down = "if findIndex isActive cs + 1 < int (length cs)
               then markActive (findIndex isActive cs + 1) cs else cs"
  let ?up = "if findIndex isActive cs > 0
             then markActive (findIndex isActive cs - 1) cs else cs"
  have "?down = cs \<or> ?down = markActive (findIndex isActive cs + 1) cs"
    by simp
  note d = frame_step[OF this]
  have "?up = cs \<or> ?up = markActive (findIndex isActive cs - 1) cs"
    by simp
  note u = frame_step[OF this]
  show ?thesis
  proof
    show "\<exists>cs'. priv_selectBellowField c = Inr (c\<lparr>completionFields := Some cs'\<rparr>) \<and>
            length cs' = length cs \<and>
            map (\<lambda>field. field\<lparr>isActive := False\<rparr>) cs' =
              map (\<lambda>field. field\<lparr>isActive := False\<rparr>) cs \<and>
            map descriptor_of cs' = map descriptor_of cs \<and>
            map itemLabel cs' = map itemLabel cs"
      using selectBellow_eq[OF assms] d by (intro exI[of _ ?down]) blast
    show "\<exists>cs'. priv_selectAboveField c = Inr (c\<lparr>completionFields := Some cs'\<rparr>) \<and>
            length cs' = length cs \<and>
            map (\<lambda>field. field\<lparr>isActive := False\<rparr>) cs' =
              map (\<lambda>field. field\<lparr>isActive := False\<rparr>) cs \<and>
            map descriptor_of cs' = map descriptor_of cs \<and>
            map itemLabel cs' = map itemLabel cs"
      using selectAbove_eq[OF assms] u by (intro exI[of _ ?up]) blast
  qed
qed

theorem select_changes_only_isActive_witness:
  "completionFields (openPanel [nameCandidate True, idCandidate False]) =
     Some [nameCandidate True, idCandidate False] \<and>
   priv_selectBellowField (openPanel [nameCandidate True, idCandidate False]) =
     Inr (openPanel [nameCandidate False, idCandidate True]) \<and>
   (\<exists>cs'. priv_selectBellowField (openPanel [nameCandidate True, idCandidate False]) =
            Inr ((openPanel [nameCandidate True, idCandidate False])\<lparr>completionFields := Some cs'\<rparr>) \<and>
          length cs' = 2 \<and>
          map descriptor_of cs' = [nameField, idField] \<and>
          map itemLabel cs' = [''Name / Name'', ''Id / Record ID''])"
proof -
  have f: "completionFields (openPanel [nameCandidate True, idCandidate False]) =
     Some [nameCandidate True, idCandidate False]"
    by (simp add: openPanel_def)
  have e: "priv_selectBellowField (openPanel [nameCandidate True, idCandidate False]) =
     Inr (openPanel [nameCandidate False, idCandidate True])"
    by (simp add: priv_selectBellowField_def priv_getActiveFieldIndex_def findIndex_def
        openPanel_def nameCandidate_def idCandidate_def)
  have d: "map descriptor_of [nameCandidate True, idCandidate False] = [nameField, idField]"
    by (simp add: descriptor_of_def nameCandidate_def idCandidate_def nameField_def idField_def)
  have i: "map itemLabel [nameCandidate True, idCandidate False] =
      [''Name / Name'', ''Id / Record ID'']"
    by (simp add: nameCandidate_def idCandidate_def)
  from select_changes_only_isActive[OF f] d i
  have "\<exists>cs'. priv_selectBellowField (openPanel [nameCandidate True, idCandidate False]) =
            Inr ((openPanel [nameCandidate True, idCandidate False])\<lparr>completionFields := Some cs'\<rparr>) \<and>
          length cs' = 2 \<and>
          map descriptor_of cs' = [nameField, idField] \<and>
          map itemLabel cs' = [''Name / Name'', ''Id / Record ID'']"
    by auto
  with f e show ?thesis by blast
qed

subsection \<open>The splice inserter\<close>

lemma substring_0: "substring s 0 b = take b s"
  by (simp add: substring_def Let_def min_def)

lemma substring_from_drop: "substring_from s a = drop a s"
  by (simp add: substring_from_def min_def)

lemma insert_present:
  assumes "p_selectionStart c = Some b"
  shows "priv_insertField stripNamespace c (Some t) (Some sel) =
     Inr (c\<lparr>p_soql := Some (take b (ta_value t) @ stripNamespace (name sel) @
                               drop (selectionStart t) (ta_value t)),
            dispatched := dispatched c @
              [UpdateSoql (take b (ta_value t) @ stripNamespace (name sel) @
                             drop (selectionStart t) (ta_value t))],
            isCompletionVisible := False\<rparr>,
          Some (setSelectionRange
                  (set_value t (take b (ta_value t) @ stripNamespace (name sel) @
                                  drop (selectionStart t) (ta_value t)))
                  (b + length (stripNamespace (name sel)))
                  (b + length (stripNamespace (name sel)))))"
  using assms
  by (simp add: priv_insertField_def Let_def set_soql_def substring_0 substring_from_drop
      priv_closeCompletion_def)

lemma value_setSelectionRange: "ta_value (setSelectionRange t a b) = ta_value t"
  by (simp add: setSelectionRange_def Let_def)

lemma value_set_value: "ta_value (set_value t v) = v"
  by (simp add: set_value_def)

lemma caret_setSelectionRange:
  "selectionStart (setSelectionRange t a a) = min a (length (ta_value t)) \<and>
   selectionEnd (setSelectionRange t a a) = min a (length (ta_value t))"
  by (simp add: setSelectionRange_def Let_def)

lemma insert_absent:
  "priv_insertField stripNamespace c textarea None =
     Inr (c\<lparr>isCompletionVisible := False\<rparr>, textarea)"
  by (simp add: priv_insertField_def priv_closeCompletion_def)

text \<open>
  Claim C1, as amended. For every text \<open>T\<close> of the input element, boundary offset \<open>b\<close>,
  selection start \<open>s\<close> and present field \<open>C\<close>, \<^verbatim>\<open>_insertField\<close> returns without an
  exception, closes the completion, and makes the text of the panel and of the
  element \<open>T[0:b] + strippedName + T[s:end]\<close>, where \<open>strippedName\<close> is what
  \<^verbatim>\<open>stripNamespace\<close> gives for the name of \<open>C\<close>; the caret is a collapsed selection at
  \<open>b + length strippedName\<close>, or at the end of the new text when that is less. When
  the boundary lies within the text, \<open>b \<le> length T\<close>, the caret is at
  \<open>b + length strippedName\<close> and the new text up to the caret is
  \<open>T[0:b] + strippedName\<close>: the caret is at the end of the inserted token.
\<close>

theorem insertField_splice:
  assumes "p_selectionStart c = Some b"
  shows "\<exists>c' t'. priv_insertField stripNamespace c (Some t) (Some sel) = Inr (c', Some t') \<and>
     p_soql c' = Some (take b (ta_value t) @ stripNamespace (name sel) @
                         drop (selectionStart t) (ta_value t)) \<and>
     ta_value t' = take b (ta_value t) @ stripNamespace (name sel) @
                     drop (selectionStart t) (ta_value t) \<and>
     \<not> isCompletionVisible c' \<and>
     selectionStart t' = min (b + length (stripNamespace (name sel))) (length (ta_value t')) \<and>
     selectionEnd t' = selectionStart t' \<and>
     (b \<le> length (ta_value t) \<longrightarrow>
        selectionStart t' = b + length (stripNamespace (name sel)) \<and>
        take (selectionStart t') (ta_value t') = take b (ta_value t) @ stripNamespace (name sel))"
proof -
  let ?new = "take b (ta_value t) @ stripNamespace (name sel) @
                drop (selectionStart t) (ta_value t)"
  let ?at = "b + length (stripNamespace (name sel))"
  let ?c = "c\<lparr>p_soql := Some ?new, dispatched := dispatched c @ [UpdateSoql ?new],
              isCompletionVisible := False\<rparr>"
  let ?t = "setSelectionRange (set_value t ?new) ?at ?at"
  have v: "ta_value ?t = ?new"
    by (simp add: value_setSelectionRange value_set_value)
  have s: "selectionStart ?t = min ?at (length ?new)" "selectionEnd ?t = min ?at (length ?new)"
    using caret_setSelectionRange[of "set_value t ?new" ?at] by (simp_all add: value_set_value)
  have inside: "selectionStart ?t = ?at \<and> take (selectionStart ?t) (ta_value ?t) =
        take b (ta_value t) @ stripNamespace (name sel)" if "b \<le> length (ta_value t)"
  proof -
    from that have l: "length (take b (ta_value t)) = b" by simp
    then have "selectionStart ?t = ?at" unfolding s by simp
    moreover have "take ?at ?new = take b (ta_value t) @ stripNamespace (name sel)"
      using l by simp
    ultimately show ?thesis using v by simp
  qed
  have "priv_insertField stripNamespace c (Some t) (Some sel) = Inr (?c, Some ?t)"
    by (rule insert_present[OF assms])
  moreover have "p_soql ?c = Some ?new" "\<not> isCompletionVisible ?c" by simp_all
  ultimately show ?thesis using v s inside by (intro exI[of _ ?c] exI[of _ ?t]) simp
qed

theorem insertField_splice_witness:
  "p_selectionStart (openPanel [nameCandidate True]) = Some 7 \<and>
   7 \<le> length ''SELECT Na FROM Account'' \<and>
   (\<exists>c' t'. priv_insertField id (openPanel [nameCandidate True])
               (Some \<lparr>ta_value = ''SELECT Na FROM Account'', selectionStart = 9,
                      selectionEnd = 9\<rparr>)
               (Some (nameCandidate True)) = Inr (c', Some t') \<and>
      p_soql c' = Some ''SELECT Name FROM Account'' \<and>
      ta_value t' = ''SELECT Name FROM Account'' \<and>
      selectionStart t' = 11 \<and>
      take (selectionStart t') (ta_value t') = ''SELECT Name'')"
proof -
  have b: "p_selectionStart (openPanel [nameCandidate True]) = Some 7"
    by (simp add: openPanel_def)
  have n: "name (nameCandidate True) = ''Name''"
    by (simp add: nameCandidate_def)
  from insertField_splice[OF b, of id
      "\<lparr>ta_value = ''SELECT Na FROM Account'', selectionStart = 9, selectionEnd = 9\<rparr>"
      "nameCandidate True"]
  have "\<exists>c' t'. priv_insertField id (openPanel [nameCandidate True])
               (Some \<lparr>ta_value = ''SELECT Na FROM Account'', selectionStart = 9,
                      selectionEnd = 9\<rparr>)
               (Some (nameCandidate True)) = Inr (c', Some t') \<and>
      p_soql c' = Some ''SELECT Name FROM Account'' \<and>
      ta_value t' = ''SELECT Name FROM Account'' \<and>
      \<not> isCompletionVisible c' \<and>
      selectionStart t' = min 11 (length (ta_value t')) \<and>
      selectionEnd t' = selectionStart t' \<and>
      selectionStart t' = 11 \<and>
      take (selectionStart t') (ta_value t') = ''SELECT Name''"
    by (simp add: n)
  then have "\<exists>c' t'. priv_insertField id (openPanel [nameCandidate True])
               (Some \<lparr>ta_value = ''SELECT Na FROM Account'', selectionStart = 9,
                      selectionEnd = 9\<rparr>)
               (Some (nameCandidate True)) = Inr (c', Some t') \<and>
      p_soql c' = Some ''SELECT Name FROM Account'' \<and>
      ta_value t' = ''SELECT Name FROM Account'' \<and>
      selectionStart t' = 11 \<and>
      take (selectionStart t') (ta_value t') = ''SELECT Name''"
    by blast
  with b show ?thesis by simp
qed

text \<open>
  The claim as stated fails when the boundary lies beyond the text, which happens when
  the text is shortened while the completion stays open. For the text \<^verbatim>\<open>ab\<close>, boundary
  7, selection start 1 and the field \<^verbatim>\<open>Name\<close> the new text is \<^verbatim>\<open>abNameb\<close> and the caret
  is at its end, offset 7, not at \<open>7 + 4\<close>; the first \<open>7 + 4\<close> characters of the new text
  are not \<^verbatim>\<open>abName\<close>: the caret is behind the suffix.
\<close>

theorem insertField_splice_counterexample:
  "element_of (priv_insertField id
      \<lparr>isCompletionVisible = True,
       completionFields = Some [\<lparr>name = ''Name'', label = ''Name'', extra = (),
                                 itemLabel = ''Name / Name'', isActive = True\<rparr>],
       p_sobjectMeta = Some [\<lparr>name = ''Name'', label = ''Name'', extra = ()\<rparr>],
       p_selectionStart = Some 7, p_soql = Some ''ab'', p_closeCompletionTimer = None,
       pendingTimeouts = [], nextTimeoutId = 1, dispatched = []\<rparr>
      (Some \<lparr>ta_value = ''ab'', selectionStart = 1, selectionEnd = 1\<rparr>)
      (Some \<lparr>name = ''Name'', label = ''Name'', extra = (), itemLabel = ''Name / Name'',
             isActive = True\<rparr>)) =
     Some \<lparr>ta_value = ''abNameb'', selectionStart = 7, selectionEnd = 7\<rparr> \<and>
   substring ''ab'' 0 7 @ id ''Name'' @ substring_from ''ab'' 1 = ''abNameb'' \<and>
   (7::nat) \<noteq> 7 + length (id ''Name'') \<and>
   take (7 + length (id ''Name'')) ''abNameb'' \<noteq> substring ''ab'' 0 7 @ id ''Name''"
  by (simp add: priv_insertField_def Let_def set_soql_def substring_def substring_from_def
      priv_closeCompletion_def element_of_def set_value_def setSelectionRange_def)

lemma insertFieldByKeyboard_none_active:
  assumes "completionFields c = Some fs" and "\<not> list_ex isActive fs"
  shows "priv_insertFieldByKeyboard stripNamespace c ev =
           Inr (c\<lparr>isCompletionVisible := False\<rparr>, Some (target ev))"
proof -
  from assms(2) have "find isActive fs = None"
    by (simp add: find_None_iff list_ex_iff)
  with assms(1) show ?thesis
    by (simp add: priv_insertFieldByKeyboard_def insert_absent)
qed

lemma insertField_unknown_name:
  assumes "completionFields c = Some fs" and "dataName \<notin> set (map name fs)"
  shows "\<exists>pending. insertField stripNamespace c dataName inputEl =
           Inr (c\<lparr>pendingTimeouts := pending, isCompletionVisible := False\<rparr>, inputEl)"
proof -
  let ?c1 = "case p_closeCompletionTimer c of
               None \<Rightarrow> c
             | Some timer \<Rightarrow>
                 if timer = 0 then c
                 else c\<lparr>pendingTimeouts := removeAll timer (pendingTimeouts c)\<rparr>"
  from assms(2) have n: "find (\<lambda>field. name field = dataName) fs = None"
    by (auto simp: find_None_iff)
  have "\<exists>pending. ?c1 = c\<lparr>pendingTimeouts := pending\<rparr>"
  proof (cases "p_closeCompletionTimer c")
    case None
    then show ?thesis by (intro exI[of _ "pendingTimeouts c"]) simp
  next
    case (Some timer)
    then show ?thesis
      by (cases "timer = 0") (auto intro: exI[of _ "pendingTimeouts c"])
  qed
  then obtain pending where p: "?c1 = c\<lparr>pendingTimeouts := pending\<rparr>" ..
  with assms(1) have f: "completionFields ?c1 = Some fs" by simp
  have "insertField stripNamespace c dataName inputEl =
          priv_insertField stripNamespace ?c1 inputEl None"
    using f n by (simp add: insertField_def Let_def)
  also have "\<dots> = Inr (?c1\<lparr>isCompletionVisible := False\<rparr>, inputEl)"
    by (rule insert_absent)
  finally show ?thesis unfolding p by blast
qed

text \<open>
  Claim C8. When no field is passed to \<^verbatim>\<open>_insertField\<close>, it returns without an
  exception, with or without an input element; the text of the panel, the element
  with its text and caret, and every other field are as before, and the completion is
  closed. Confirming by keyboard on a list without an active field, the empty list for
  one, is such a call, and so is a click that names no field of the list; the click
  clears its timeout first.
\<close>

theorem insertField_absent:
  "priv_insertField stripNamespace c textarea None =
     Inr (c\<lparr>isCompletionVisible := False\<rparr>, textarea) \<and>
   (completionFields c = Some fs \<and> \<not> list_ex isActive fs \<longrightarrow>
      priv_insertFieldByKeyboard stripNamespace c ev =
        Inr (c\<lparr>isCompletionVisible := False\<rparr>, Some (target ev))) \<and>
   (completionFields c = Some fs \<and> dataName \<notin> set (map name fs) \<longrightarrow>
      (\<exists>pending. insertField stripNamespace c dataName inputEl =
         Inr (c\<lparr>pendingTimeouts := pending, isCompletionVisible := False\<rparr>, inputEl)))"
proof (intro conjI impI)
  show "priv_insertField stripNamespace c textarea None =
     Inr (c\<lparr>isCompletionVisible := False\<rparr>, textarea)"
    by (rule insert_absent)
next
  assume "completionFields c = Some fs \<and> \<not> list_ex isActive fs"
  then show "priv_insertFieldByKeyboard stripNamespace c ev =
        Inr (c\<lparr>isCompletionVisible := False\<rparr>, Some (target ev))"
    using insertFieldByKeyboard_none_active[of c fs stripNamespace ev] by blast
next
  assume "completionFields c = Some fs \<and> dataName \<notin> set (map name fs)"
  then show "\<exists>pending. insertField stripNamespace c dataName inputEl =
         Inr (c\<lparr>pendingTimeouts := pending, isCompletionVisible := False\<rparr>, inputEl)"
    using insertField_unknown_name[of c fs dataName stripNamespace inputEl] by blast
qed

theorem insertField_absent_witness:
  "priv_insertField id (openPanel []) None None =
     Inr ((openPanel [])\<lparr>isCompletionVisible := False\<rparr>, None) \<and>
   completionFields (openPanel []) = Some [] \<and>
   \<not> list_ex isActive ([] :: unit candidate list) \<and>
   priv_insertFieldByKeyboard id (openPanel []) (keyEvent ''Enter'' ''SELECT Na'' 9) =
     Inr ((openPanel [])\<lparr>isCompletionVisible := False\<rparr>,
          Some \<lparr>ta_value = ''SELECT Na'', selectionStart = 9, selectionEnd = 9\<rparr>) \<and>
   ''Id'' \<notin> set (map name ([] :: unit candidate list)) \<and>
   (\<exists>pending. insertField id (openPanel []) ''Id'' None =
      Inr ((openPanel [])\<lparr>pendingTimeouts := pending, isCompletionVisible := False\<rparr>, None))"
proof -
  have f: "completionFields (openPanel []) = Some [] \<and>
      \<not> list_ex isActive ([] :: unit candidate list)"
    and g: "completionFields (openPanel []) = Some [] \<and>
      ''Id'' \<notin> set (map name ([] :: unit candidate list))"
    by (simp_all add: openPanel_def)
  note t = insertField_absent[of id "openPanel []" None "[]"
      "keyEvent ''Enter'' ''SELECT Na'' 9" "''Id''" None]
  have "priv_insertField id (openPanel []) None None =
     Inr ((openPanel [])\<lparr>isCompletionVisible := False\<rparr>, None)"
    by (rule t[THEN conjunct1])
  moreover have "priv_insertFieldByKeyboard id (openPanel [])
      (keyEvent ''Enter'' ''SELECT Na'' 9) =
     Inr ((openPanel [])\<lparr>isCompletionVisible := False\<rparr>,
          Some \<lparr>ta_value = ''SELECT Na'', selectionStart = 9, selectionEnd = 9\<rparr>)"
    using t[THEN conjunct2, THEN conjunct1, THEN mp, OF f] by (simp add: keyEvent_def)
  moreover have "\<exists>pending. insertField id (openPanel []) ''Id'' None =
      Inr ((openPanel [])\<lparr>pendingTimeouts := pending, isCompletionVisible := False\<rparr>, None)"
    by (rule t[THEN conjunct2, THEN conjunct2, THEN mp, OF g])
  ultimately show ?thesis using f g by (intro conjI) simp_all
qed

subsection \<open>Keystrokes while the completion is open\<close>

lemma handleCompletion_closing_keys:
  assumes "key ev \<in> set [''.'', '','', '' '', ''Escape'', ''ArrowLeft'', ''ArrowRight'']"
  shows "priv_handleCompletion c ev = Inr (c\<lparr>isCompletionVisible := False\<rparr>)"
  using assms
  by (auto simp: priv_handleCompletion_def priv_closeCompletion_def Let_def)

lemma handleCompletion_backspace:
  assumes "p_sobjectMeta c = Some catalog" "p_selectionStart c = Some b" "key ev = ''Backspace''"
  shows "priv_handleCompletion c ev =
     Inr (c\<lparr>completionFields :=
              Some (searchFields
                      (substring (ta_value (target ev)) b (selectionEnd (target ev))) catalog),
            isCompletionVisible :=
              (searchFields
                 (substring (ta_value (target ev)) b (selectionEnd (target ev))) catalog \<noteq> [] \<and>
               selectionStart (target ev) \<noteq> b)\<rparr>)"
  using assms
  by (auto simp: priv_handleCompletion_def priv_deleteKeyword_def priv_searchCompletionFields_def
      priv_closeCompletion_def Let_def)

lemma handleKeyupSoql_open:
  assumes "isCompletionVisible c" "p_sobjectMeta c = Some catalog"
  shows "handleKeyupSoql c ev =
     priv_handleCompletion
       (if p_soql c \<noteq> Some (ta_value (target ev))
        then c\<lparr>dispatched := dispatched c @ [UpdateSoql (ta_value (target ev))]\<rparr> else c) ev"
  using assms by (simp add: handleKeyupSoql_def Let_def)

text \<open>
  Claim C2 says that a keystroke received while the completion is open leaves it
  closed when alt, ctrl or meta is held or the key is one of period, comma, space,
  Escape, ArrowLeft and ArrowRight. The six keys do close it, as shown above. On a
  modifier \<^verbatim>\<open>_handleCompletion\<close> closes the completion and then goes on to the switch
  on the key, whose default case searches again and shows the completion when a field
  matches. For ctrl+a on the text \<^verbatim>\<open>SELECT Na\<close>, with the boundary at 7 and the catalog
  field \<^verbatim>\<open>Name\<close>, the panel after the keystroke is the panel before it: the completion
  is visible, with the field \<^verbatim>\<open>Name\<close> in its list.
\<close>

theorem modifier_keystroke_stays_open:
  "state_of (handleKeyupSoql
      \<lparr>isCompletionVisible = True,
       completionFields = Some [\<lparr>name = ''Name'', label = ''Name'', extra = (),
                                 itemLabel = ''Name / Name'', isActive = True\<rparr>],
       p_sobjectMeta = Some [\<lparr>name = ''Name'', label = ''Name'', extra = ()\<rparr>],
       p_selectionStart = Some 7, p_soql = Some ''SELECT Na'', p_closeCompletionTimer = None,
       pendingTimeouts = [], nextTimeoutId = 1, dispatched = []\<rparr>
      \<lparr>key = ''a'', altKey = False, ctrlKey = True, metaKey = False, isComposing = False,
       target = \<lparr>ta_value = ''SELECT Na'', selectionStart = 0, selectionEnd = 9\<rparr>\<rparr>) =
     \<lparr>isCompletionVisible = True,
      completionFields = Some [\<lparr>name = ''Name'', label = ''Name'', extra = (),
                                itemLabel = ''Name / Name'', isActive = True\<rparr>],
      p_sobjectMeta = Some [\<lparr>name = ''Name'', label = ''Name'', extra = ()\<rparr>],
      p_selectionStart = Some 7, p_soql = Some ''SELECT Na'', p_closeCompletionTimer = None,
      pendingTimeouts = [], nextTimeoutId = 1, dispatched = []\<rparr>"
  by (simp add: handleKeyupSoql_def priv_handleCompletion_def priv_searchCompletionFields_def
      priv_closeCompletion_def Let_def state_of_def substring_def searchFields_def
      escapeRegExp_def canonicalize_def toUpperCase_def hasUpperCase_def)

text \<open>
  Claim C7, as amended. For a Backspace keystroke handled by \<^verbatim>\<open>_handleCompletion\<close>, with
  the catalog loaded and the boundary at \<open>b\<close>, the completion fields become the fields
  that match the text between \<open>b\<close> and the end of the selection; the completion is
  visible afterwards exactly when this list is not empty and the selection start
  differs from \<open>b\<close>. So it is closed when the caret is back at the boundary, and also
  when nothing matches; otherwise it stays open with the new list. The same holds for
  the key-up handler on an open completion.
\<close>

theorem backspace_recomputes:
  assumes "p_sobjectMeta c = Some catalog" and "p_selectionStart c = Some b"
    and "key ev = ''Backspace''"
  shows "priv_handleCompletion c ev =
     Inr (c\<lparr>completionFields :=
              Some (searchFields
                      (substring (ta_value (target ev)) b (selectionEnd (target ev))) catalog),
            isCompletionVisible :=
              (searchFields
                 (substring (ta_value (target ev)) b (selectionEnd (target ev))) catalog \<noteq> [] \<and>
               selectionStart (target ev) \<noteq> b)\<rparr>) \<and>
     (isCompletionVisible c \<longrightarrow>
        completionFields (state_of (handleKeyupSoql c ev)) =
          Some (searchFields
                  (substring (ta_value (target ev)) b (selectionEnd (target ev))) catalog) \<and>
        isCompletionVisible (state_of (handleKeyupSoql c ev)) =
          (searchFields
             (substring (ta_value (target ev)) b (selectionEnd (target ev))) catalog \<noteq> [] \<and>
           selectionStart (target ev) \<noteq> b))"
proof -
  let ?c1 = "if p_soql c \<noteq> Some (ta_value (target ev))
             then c\<lparr>dispatched := dispatched c @ [UpdateSoql (ta_value (target ev))]\<rparr> else c"
  have m: "p_sobjectMeta ?c1 = Some catalog" and s: "p_selectionStart ?c1 = Some b"
    using assms(1,2) by simp_all
  have "isCompletionVisible c \<Longrightarrow> handleKeyupSoql c ev = priv_handleCompletion ?c1 ev"
    by (rule handleKeyupSoql_open[OF _ assms(1)])
  then show ?thesis
    unfolding handleCompletion_backspace[OF assms] handleCompletion_backspace[OF m s assms(3)]
    by (simp add: state_of_def)
qed

theorem backspace_recomputes_witness:
  "p_sobjectMeta (openPanel [nameCandidate True]) = Some [nameField, idField] \<and>
   p_selectionStart (openPanel [nameCandidate True]) = Some 7 \<and>
   isCompletionVisible (openPanel [nameCandidate True]) \<and>
   key (keyEvent ''Backspace'' ''SELECT N'' 8) = ''Backspace'' \<and>
   completionFields (state_of (handleKeyupSoql (openPanel [nameCandidate True])
      (keyEvent ''Backspace'' ''SELECT N'' 8))) = Some [nameCandidate True] \<and>
   isCompletionVisible (state_of (handleKeyupSoql (openPanel [nameCandidate True])
      (keyEvent ''Backspace'' ''SELECT N'' 8))) \<and>
   \<not> isCompletionVisible (state_of (handleKeyupSoql (openPanel [nameCandidate True])
      (keyEvent ''Backspace'' ''SELECT '' 7)))"
proof -
  have m: "p_sobjectMeta (openPanel [nameCandidate True]) = Some [nameField, idField]"
    and b: "p_selectionStart (openPanel [nameCandidate True]) = Some 7"
    and v: "isCompletionVisible (openPanel [nameCandidate True])"
    by (simp_all add: openPanel_def)
  have k: "key (keyEvent ''Backspace'' str caret) = ''Backspace''" for str caret
    by (simp add: keyEvent_def)
  have s: "searchFields (substring (ta_value (target (keyEvent ''Backspace'' ''SELECT N'' 8))) 7
             (selectionEnd (target (keyEvent ''Backspace'' ''SELECT N'' 8))))
             [nameField, idField] = [nameCandidate True]"
    by (simp add: keyEvent_def substring_def searchFields_def escapeRegExp_def canonicalize_def toUpperCase_def hasUpperCase_def
        nameField_def idField_def nameCandidate_def)
  have c1: "selectionStart (target (keyEvent ''Backspace'' ''SELECT N'' 8)) \<noteq> 7"
    and c2: "selectionStart (target (keyEvent ''Backspace'' ''SELECT '' 7)) = 7"
    by (simp_all add: keyEvent_def)
  from backspace_recomputes[OF m b k, of "''SELECT N''" 8] v
  have "completionFields (state_of (handleKeyupSoql (openPanel [nameCandidate True])
      (keyEvent ''Backspace'' ''SELECT N'' 8))) = Some [nameCandidate True] \<and>
   isCompletionVisible (state_of (handleKeyupSoql (openPanel [nameCandidate True])
      (keyEvent ''Backspace'' ''SELECT N'' 8)))"
    by (simp only: s c1) simp
  moreover from backspace_recomputes[OF m b k, of "''SELECT ''" 7] v
  have "\<not> isCompletionVisible (state_of (handleKeyupSoql (openPanel [nameCandidate True])
      (keyEvent ''Backspace'' ''SELECT '' 7)))"
    by (simp only: c2) simp
  ultimately show ?thesis using m b v k by blast
qed

text \<open>
  The claim as stated fails when nothing matches: with the boundary at 7 and the
  catalog field \<^verbatim>\<open>Name\<close>, after a click at offset 3 a Backspace leaves the text
  \<^verbatim>\<open>SEECT N\<close> with the caret at 2, which is not the boundary; the keyword is \<^verbatim>\<open>ECT N\<close>,
  the new list is empty and the completion is closed.
\<close>

theorem backspace_recomputes_counterexample:
  "state_of (handleKeyupSoql
      \<lparr>isCompletionVisible = True,
       completionFields = Some [\<lparr>name = ''Name'', label = ''Name'', extra = (),
                                 itemLabel = ''Name / Name'', isActive = True\<rparr>],
       p_sobjectMeta = Some [\<lparr>name = ''Name'', label = ''Name'', extra = ()\<rparr>],
       p_selectionStart = Some 7, p_soql = Some ''SEECT N'', p_closeCompletionTimer = None,
       pendingTimeouts = [], nextTimeoutId = 1, dispatched = []\<rparr>
      \<lparr>key = ''Backspace'', altKey = False, ctrlKey = False, metaKey = False,
       isComposing = False,
       target = \<lparr>ta_value = ''SEECT N'', selectionStart = 2, selectionEnd = 2\<rparr>\<rparr>) =
     \<lparr>isCompletionVisible = False,
      completionFields = Some [],
      p_sobjectMeta = Some [\<lparr>name = ''Name'', label = ''Name'', extra = ()\<rparr>],
      p_selectionStart = Some 7, p_soql = Some ''SEECT N'', p_closeCompletionTimer = None,
      pendingTimeouts = [], nextTimeoutId = 1, dispatched = []\<rparr>"
  by (simp add: handleKeyupSoql_def priv_handleCompletion_def priv_deleteKeyword_def
      priv_searchCompletionFields_def priv_closeCompletion_def Let_def state_of_def
      substring_def searchFields_def escapeRegExp_def canonicalize_def toUpperCase_def hasUpperCase_def)

subsection \<open>A visible completion has candidates\<close>

lemma inv_close: "openHasCandidates (priv_closeCompletion c)"
  by (simp add: openHasCandidates_def priv_closeCompletion_def)

lemma inv_search:
  "openHasCandidates c \<Longrightarrow> openHasCandidates (state_of (priv_searchCompletionFields c ev))"
  by (auto simp: openHasCandidates_def priv_searchCompletionFields_def state_of_def Let_def
      split: option.splits)

lemma inv_selectionStart:
  "openHasCandidates (c\<lparr>p_selectionStart := b\<rparr>) = openHasCandidates c"
  by (simp add: openHasCandidates_def)

lemma inv_dispatched:
  "openHasCandidates (c\<lparr>dispatched := d\<rparr>) = openHasCandidates c"
  by (simp add: openHasCandidates_def)

lemma inv_pending:
  "openHasCandidates (c\<lparr>pendingTimeouts := d\<rparr>) = openHasCandidates c"
  by (simp add: openHasCandidates_def)

lemma inv_open:
  "openHasCandidates c \<Longrightarrow> openHasCandidates (state_of (priv_openCompletion c ev))"
  unfolding priv_openCompletion_def Let_def
  by (auto simp: inv_selectionStart inv_search state_of_def[of "Inr x" for x])

lemma inv_delete:
  "openHasCandidates c \<Longrightarrow> openHasCandidates (state_of (priv_deleteKeyword c ev))"
  using inv_search[of c ev]
  by (auto simp: priv_deleteKeyword_def state_of_def inv_close split: sum.splits)

lemma inv_handle:
  "openHasCandidates c \<Longrightarrow> openHasCandidates (state_of (priv_handleCompletion c ev))"
  unfolding priv_handleCompletion_def Let_def
  by (auto simp: inv_close inv_delete inv_search state_of_def[of "Inr x" for x]
      simp del: set_simps)

lemma inv_keyup:
  "openHasCandidates c \<Longrightarrow> openHasCandidates (state_of (handleKeyupSoql c ev))"
  unfolding handleKeyupSoql_def Let_def
  by (auto simp: inv_dispatched inv_open inv_handle state_of_def[of "Inr x" for x])

lemma enumerate_Nil_iff: "enumerate n xs = [] \<longleftrightarrow> xs = []"
  by (cases xs) simp_all

lemma inv_below:
  "openHasCandidates c \<Longrightarrow> openHasCandidates (state_of (priv_selectBellowField c))"
  by (auto simp: priv_selectBellowField_def priv_getActiveFieldIndex_def state_of_def
      openHasCandidates_def enumerate_Nil_iff split: option.splits)

lemma inv_above:
  "openHasCandidates c \<Longrightarrow> openHasCandidates (state_of (priv_selectAboveField c))"
  by (auto simp: priv_selectAboveField_def priv_getActiveFieldIndex_def state_of_def
      openHasCandidates_def enumerate_Nil_iff split: option.splits)

lemma dom_state_with_element: "dom_state_of (with_element el r) = state_of r"
  by (auto simp: dom_state_of_def with_element_def state_of_def split: sum.splits)

lemma inv_insert:
  "openHasCandidates c \<Longrightarrow> openHasCandidates (dom_state_of (priv_insertField s c el sel))"
  by (auto simp: priv_insertField_def dom_state_of_def inv_close Let_def set_soql_def
      split: option.splits)

lemma inv_insert_keyboard:
  "openHasCandidates c \<Longrightarrow>
   openHasCandidates (dom_state_of (priv_insertFieldByKeyboard s c ev))"
  by (auto simp: priv_insertFieldByKeyboard_def inv_insert dom_state_of_def[of "Inl x" for x]
      split: option.splits)

lemma inv_click:
  "openHasCandidates c \<Longrightarrow> openHasCandidates (dom_state_of (insertField s c n el))"
  unfolding insertField_def Let_def
  by (auto simp: inv_insert inv_pending dom_state_of_def[of "Inl x" for x]
      split: option.splits)

lemma inv_keydown:
  "openHasCandidates c \<Longrightarrow> openHasCandidates (dom_state_of (handleKeydownSoql s c ev))"
  unfolding handleKeydownSoql_def
  by (auto simp: dom_state_with_element inv_below inv_above inv_insert_keyboard inv_open
      dom_state_of_def[of "Inr x" for x])

lemma inv_blur: "openHasCandidates c \<Longrightarrow> openHasCandidates (handleBlurSoql c)"
  by (simp add: handleBlurSoql_def openHasCandidates_def)

lemma inv_timeout: "openHasCandidates c \<Longrightarrow> openHasCandidates (timeoutFires c timer)"
  by (simp add: timeoutFires_def inv_close)

lemma inv_store:
  "openHasCandidates c \<Longrightarrow> openHasCandidates (fst (storeChange f c el sob q sq))"
  by (auto simp: storeChange_def set_soql_def openHasCandidates_def Let_def split: option.splits)

lemma inv_step: "openHasCandidates c \<Longrightarrow> openHasCandidates (step s f c e)"
  by (cases e)
     (simp_all add: step_def inv_keyup inv_keydown inv_blur inv_timeout inv_click inv_store)

lemma inv_run: "openHasCandidates c \<Longrightarrow> openHasCandidates (run s f c es)"
  by (induction es arbitrary: c) (simp_all add: inv_step)

lemma inv_initial: "openHasCandidates initial"
  by (simp add: openHasCandidates_def initial_def)

text \<open>
  Claim C9. In every state that the panel reaches from its initial state, in which the
  completion is not visible, through any sequence of key-up, key-down, blur, timeout,
  click and store events, a visible completion has a list of completion fields with at
  least one element, whatever \<^verbatim>\<open>stripNamespace\<close> and \<^verbatim>\<open>fullApiName\<close> compute.
\<close>

theorem visible_completion_has_candidates:
  assumes "isCompletionVisible (run stripNamespace fullApiName initial es)"
  shows "\<exists>fs. completionFields (run stripNamespace fullApiName initial es) = Some fs \<and>
              0 < length fs"
proof -
  have "openHasCandidates (run stripNamespace fullApiName initial es)"
    by (rule inv_run[OF inv_initial])
  with assms show ?thesis
    by (auto simp: openHasCandidates_def split: option.splits)
qed

theorem visible_completion_has_candidates_witness:
  "isCompletionVisible (run id id (initial :: unit cmp)
     [StoreChange (Some [''Account'' \<mapsto> \<lparr>data = Some [nameField, idField]\<rparr>])
        (Some \<lparr>sObject = ''Account''\<rparr>) ''SELECT '' None,
      KeyUp (keyEvent ''N'' ''SELECT N'' 8)]) \<and>
   (\<exists>fs. completionFields (run id id (initial :: unit cmp)
     [StoreChange (Some [''Account'' \<mapsto> \<lparr>data = Some [nameField, idField]\<rparr>])
        (Some \<lparr>sObject = ''Account''\<rparr>) ''SELECT '' None,
      KeyUp (keyEvent ''N'' ''SELECT N'' 8)]) = Some fs \<and> 0 < length fs)"
proof -
  have v: "isCompletionVisible (run id id (initial :: unit cmp)
     [StoreChange (Some [''Account'' \<mapsto> \<lparr>data = Some [nameField, idField]\<rparr>])
        (Some \<lparr>sObject = ''Account''\<rparr>) ''SELECT '' None,
      KeyUp (keyEvent ''N'' ''SELECT N'' 8)])"
    by (simp add: step_def storeChange_def set_soql_def handleKeyupSoql_def
        priv_openCompletion_def priv_canOpenCompletion_def priv_findSeparator_def
        isSeparatorChar_def priv_searchCompletionFields_def Let_def initial_def state_of_def
        substring_def searchFields_def escapeRegExp_def canonicalize_def toUpperCase_def hasUpperCase_def keyEvent_def
        nameField_def idField_def)
  from visible_completion_has_candidates[OF v] v show ?thesis by blast
qed

subsection \<open>Runs that lead to the inputs above\<close>

text \<open>
  The store delivers the catalog, the user types \<^verbatim>\<open>N\<close> after \<^verbatim>\<open>SELECT \<close> and the
  completion opens with the boundary at 7.
\<close>

lemma run_opens_on_name:
  "run id id (initial :: unit cmp)
     [StoreChange (Some [''Account'' \<mapsto> \<lparr>data = Some [nameField, idField]\<rparr>])
        (Some \<lparr>sObject = ''Account''\<rparr>) ''SELECT '' None,
      KeyUp (keyEvent ''N'' ''SELECT N'' 8)] =
   \<lparr>isCompletionVisible = True, completionFields = Some [nameCandidate True],
    p_sobjectMeta = Some [nameField, idField], p_selectionStart = Some 7,
    p_soql = Some ''SELECT '', p_closeCompletionTimer = None,
    pendingTimeouts = [], nextTimeoutId = 1, dispatched = [UpdateSoql ''SELECT N'']\<rparr>"
  by (simp add: step_def storeChange_def set_soql_def handleKeyupSoql_def
      priv_openCompletion_def priv_canOpenCompletion_def priv_findSeparator_def
      isSeparatorChar_def priv_searchCompletionFields_def Let_def initial_def state_of_def
      substring_def searchFields_def escapeRegExp_def canonicalize_def toUpperCase_def hasUpperCase_def keyEvent_def
      nameField_def idField_def nameCandidate_def)

text \<open>
  From there: ctrl+a with the text \<^verbatim>\<open>SELECT N\<close> selected leaves the completion visible;
  a Backspace after a click at offset 3 closes it with the caret at 2; and when the
  text is replaced by \<^verbatim>\<open>ab\<close> and the caret put at 1, Enter makes the text \<^verbatim>\<open>abNameb\<close>.
\<close>

lemma run_modifier_keystroke:
  "isCompletionVisible (run id id (initial :: unit cmp)
     [StoreChange (Some [''Account'' \<mapsto> \<lparr>data = Some [nameField, idField]\<rparr>])
        (Some \<lparr>sObject = ''Account''\<rparr>) ''SELECT '' None,
      KeyUp (keyEvent ''N'' ''SELECT N'' 8),
      KeyUp \<lparr>key = ''a'', altKey = False, ctrlKey = True, metaKey = False,
             isComposing = False,
             target = \<lparr>ta_value = ''SELECT N'', selectionStart = 0, selectionEnd = 8\<rparr>\<rparr>])"
  by (simp add: step_def storeChange_def set_soql_def handleKeyupSoql_def
      priv_openCompletion_def priv_canOpenCompletion_def priv_findSeparator_def
      isSeparatorChar_def priv_searchCompletionFields_def priv_handleCompletion_def
      priv_closeCompletion_def Let_def initial_def state_of_def
      substring_def searchFields_def escapeRegExp_def canonicalize_def toUpperCase_def hasUpperCase_def keyEvent_def
      nameField_def idField_def)

lemma run_backspace_without_match:
  "\<not> isCompletionVisible (run id id (initial :: unit cmp)
     [StoreChange (Some [''Account'' \<mapsto> \<lparr>data = Some [nameField, idField]\<rparr>])
        (Some \<lparr>sObject = ''Account''\<rparr>) ''SELECT '' None,
      KeyUp (keyEvent ''N'' ''SELECT N'' 8),
      KeyUp (keyEvent ''Backspace'' ''SEECT N'' 2)])"
  by (simp add: step_def storeChange_def set_soql_def handleKeyupSoql_def
      priv_openCompletion_def priv_canOpenCompletion_def priv_findSeparator_def
      isSeparatorChar_def priv_searchCompletionFields_def priv_handleCompletion_def
      priv_deleteKeyword_def priv_closeCompletion_def Let_def initial_def state_of_def
      substring_def searchFields_def escapeRegExp_def canonicalize_def toUpperCase_def hasUpperCase_def keyEvent_def
      nameField_def idField_def)

lemma run_stale_boundary:
  "p_soql (run id id (initial :: unit cmp)
     [StoreChange (Some [''Account'' \<mapsto> \<lparr>data = Some [nameField, idField]\<rparr>])
        (Some \<lparr>sObject = ''Account''\<rparr>) ''SELECT '' None,
      KeyUp (keyEvent ''N'' ''SELECT N'' 8),
      KeyUp (keyEvent ''b'' ''ab'' 2),
      KeyDown (keyEvent ''Enter'' ''ab'' 1)]) = Some ''abNameb''"
  by (simp add: step_def storeChange_def set_soql_def handleKeyupSoql_def
      priv_openCompletion_def priv_canOpenCompletion_def priv_findSeparator_def
      isSeparatorChar_def priv_searchCompletionFields_def priv_handleCompletion_def
      priv_closeCompletion_def handleKeydownSoql_def priv_insertFieldByKeyboard_def
      priv_insertField_def dom_state_of_def substring_from_def Let_def initial_def state_of_def
      substring_def searchFields_def escapeRegExp_def canonicalize_def toUpperCase_def hasUpperCase_def keyEvent_def
      nameField_def idField_def)

end
